theory Spec2Isabelle
  imports Complex_Main
begin

section \<open>Admin pages: categories browser and users management\<close>

text \<open>
  The two page controllers are React function components. Their \<open>useState\<close> cells are
  the fields of a record, every handler is a function from the state to the new state,
  and what a handler sends to the outside (requests to the API client, \<open>console.error\<close>,
  \<open>alert\<close>) is appended to a log kept in the same record. An \<open>await\<close> is modelled by
  taking the outcome of the awaited call as an argument: \<open>Inl\<close> for a rejected promise,
  \<open>Inr\<close> for the resolved value.
\<close>

subsection \<open>Data\<close>

text \<open>The message of a thrown JavaScript error.\<close>

type_synonym js_error = string

text \<open>\<open>interface Category\<close> of the categories page. \<open>children\<close> is optional: \<open>None\<close> is
  an absent field, \<open>Some []\<close> an empty array.\<close>

datatype category_type = blueprint | project

record category_field =
  fieldName :: string
  fieldType :: string

record category_settings =
  focus :: string
  tone :: string
  quantity :: string
  contentLength :: int

datatype category = Category
  (cat_id: string)
  (title: string)
  (cat_alias: string)
  (description: string)
  (cat_type: category_type)
  (level: int)
  (parentId: "string option")
  (fields: "category_field list")
  (settings: category_settings)
  (createdAt: string)
  (updatedAt: string)
  (children: "category list option")

text \<open>The fields \<open>firstName\<close>, \<open>lastName\<close>, \<open>email\<close> and \<open>role\<close> are common to
  \<open>CreateUserInput\<close> and to \<open>AdminUser\<close>.\<close>

datatype user_role = Admin | User

record user_fields =
  firstName :: string
  lastName :: string
  email :: string
  role :: user_role

record create_user_input = user_fields +
  password :: string

text \<open>Modelled from the spec: the type \<open>AdminUser\<close> is declared in
  \<open>services/adminApi\<close>, which is not among the sources. The record has the fields the
  users page reads; the usage counters are finite JavaScript numbers.\<close>

record admin_user = user_fields +
  user_id :: string
  wordsUsed :: real
  totalWords :: real
  user_createdAt :: string

text \<open>The pagination snapshot of the users page (the object held by
  \<open>useState({currentPage: 1, ...})\<close>).\<close>

record pagination_info =
  currentPage :: int
  totalPages :: int
  totalItems :: int
  itemsPerPage :: int

text \<open>What the list endpoints resolve to: \<open>response.data\<close>, and for users also
  \<open>response.pagination\<close>.\<close>

record 'r list_response =
  data :: "'r list"

record 'r paged_response = "'r list_response" +
  response_pagination :: pagination_info

text \<open>The calls a page sends out, in the order of the log.\<close>

datatype api_call =
    GetCategories int int string
  | GetUsers int int string
  | DeleteUser string
  | Register create_user_input

text \<open>
  The state cells both pages have, and the instrumentation of the model:
  \<^item> \<open>timer\<close> is the pending \<open>setTimeout\<close> of the debounce effect, as the milliseconds
    left and the value its callback captured; \<open>None\<close> when none is pending;
  \<^item> \<open>published\<close> are the values that fired timers have passed to the setter of the
    debounced query, oldest first;
  \<^item> \<open>requests\<close> are the calls sent to the API so far, oldest first;
  \<^item> \<open>console\<close> are the \<open>console.error\<close> lines (label and error message).
\<close>

record page_state =
  loading :: bool
  searchTerm :: string
  debouncedSearch :: string
  showEditModal :: bool
  showCreateModal :: bool
  timer :: "(nat \<times> string) option"
  published :: "string list"
  requests :: "api_call list"
  console :: "(string \<times> js_error) list"

record categories_page = page_state +
  categories :: "category list"
  selectedCategory :: "category option"
  expandedCategories :: "string set"

record users_page = page_state +
  users :: "admin_user list"
  selectedUser :: "admin_user option"
  pagination :: pagination_info
  alerts :: "string list"

subsection \<open>Categories page: the tree and its Expansion Set\<close>

text \<open>The test \<open>cat.children && cat.children.length > 0\<close>.\<close>

definition has_children :: "category \<Rightarrow> bool" where
  "has_children cat = (case children cat of None \<Rightarrow> False | Some cs \<Rightarrow> length cs > 0)"

lemma size_children: "children c = Some cs \<Longrightarrow> size_list size cs < size c"
  by (cases c) simp

lemma size_member: "x \<in> set xs \<Longrightarrow> size (x::category) \<le> size_list size xs"
  by (induction xs) auto

text \<open>\<open>collectIds\<close> of \<open>expandAllCategories\<close>: the closure adds to the set \<open>allIds\<close> it
  captured; here the set is threaded through \<open>forEach\<close>.\<close>

function collectIds :: "category list \<Rightarrow> string set \<Rightarrow> string set" where
  "collectIds cats allIds =
     fold (\<lambda>cat acc.
            (case children cat of
               None \<Rightarrow> acc
             | Some cs \<Rightarrow>
                 if length cs > 0 then collectIds cs (insert (cat_id cat) acc) else acc))
          cats allIds"
  by pat_completeness auto
termination
proof (relation "measure (\<lambda>(cats, allIds). size_list size cats)")
  show "wf (measure (\<lambda>(cats, allIds). size_list size cats))" by simp
next
  fix cats :: "category list" and allIds :: "string set" and x x2 xa
  assume "x \<in> set cats" and "children x = Some x2" and "0 < length x2"
  then have "size_list size x2 < size x" and "size x \<le> size_list size cats"
    by (simp_all add: size_children size_member)
  then show "((x2, insert (cat_id x) xa), cats, allIds)
      \<in> measure (\<lambda>(cats, allIds). size_list size cats)"
    by simp
qed

definition expandAllCategories :: "category list \<Rightarrow> categories_page \<Rightarrow> categories_page" where
  "expandAllCategories cats s = s\<lparr>expandedCategories := collectIds cats {}\<rparr>"

definition collapseAllCategories :: "categories_page \<Rightarrow> categories_page" where
  "collapseAllCategories s = s\<lparr>expandedCategories := {}\<rparr>"

definition toggleExpanded :: "string \<Rightarrow> categories_page \<Rightarrow> categories_page" where
  "toggleExpanded categoryId s =
     (let newExpanded = expandedCategories s in
      s\<lparr>expandedCategories :=
          (if categoryId \<in> newExpanded then newExpanded - {categoryId}
           else insert categoryId newExpanded)\<rparr>)"

text \<open>
  What \<open>renderCategoryTree\<close> returns for one category: the row and, when shown, the
  container of the children. \<open>indented\<close> is the class \<open>ml-6\<close> (\<open>level > 0\<close>);
  \<open>control\<close> is the expand button, \<open>Some (i, e)\<close> for a button whose click calls
  \<open>toggleExpanded i\<close> and that shows \<open>ChevronDown\<close> when \<open>e\<close>, and \<open>None\<close> for the
  spacer drawn instead; \<open>child_count\<close> is the "(n children)" label. React keys are
  left out: they are not part of what is drawn.
\<close>

datatype view = View
  (indented: bool)
  (control: "(string \<times> bool) option")
  (view_title: string)
  (view_alias: string)
  (badge: category_type)
  (level_text: int)
  (child_count: "nat option")
  (subtree: "view list option")

function renderCategoryTree :: "string set \<Rightarrow> category list \<Rightarrow> nat \<Rightarrow> view list" where
  "renderCategoryTree expanded cats lvl =
     map (\<lambda>cat.
            View (lvl > 0)
              (if has_children cat then Some (cat_id cat, cat_id cat \<in> expanded) else None)
              (title cat) (cat_alias cat) (cat_type cat) (level cat)
              (case children cat of
                 None \<Rightarrow> None
               | Some cs \<Rightarrow> if length cs > 0 then Some (length cs) else None)
              (case children cat of
                 None \<Rightarrow> None
               | Some cs \<Rightarrow>
                   if length cs > 0 \<and> cat_id cat \<in> expanded
                   then Some (renderCategoryTree expanded cs (lvl + 1)) else None))
         cats"
  by pat_completeness auto
termination
proof (relation "measure (\<lambda>(expanded, cats, lvl). size_list size cats)")
  show "wf (measure (\<lambda>(expanded, cats, lvl). size_list size cats))" by simp
next
  fix expanded :: "string set" and cats :: "category list" and lvl :: nat and x x2
  assume "x \<in> set cats" and "children x = Some x2"
  then have "size_list size x2 < size x" and "size x \<le> size_list size cats"
    by (simp_all add: size_children size_member)
  then show "((expanded, x2, lvl + 1), expanded, cats, lvl)
      \<in> measure (\<lambda>(expanded, cats, lvl). size_list size cats)"
    by simp
qed

text \<open>A click on a drawn row reaches \<open>toggleExpanded\<close> only through the button: where
  the spacer is drawn there is no handler and the state stays as it is.\<close>

definition click_control :: "view \<Rightarrow> categories_page \<Rightarrow> categories_page" where
  "click_control v s = (case control v of None \<Rightarrow> s | Some (i, e) \<Rightarrow> toggleExpanded i s)"

text \<open>The words of the specification, to compare \<open>collectIds\<close> with: all nodes of the
  forest in pre-order (a node before its children, siblings left to right).\<close>

function forest_nodes :: "category list \<Rightarrow> category list" where
  "forest_nodes cats =
     concat (map (\<lambda>cat. cat # (case children cat of None \<Rightarrow> [] | Some cs \<Rightarrow> forest_nodes cs))
                 cats)"
  by pat_completeness auto
termination
proof (relation "measure (size_list size)")
  show "wf (measure (size_list (size :: category \<Rightarrow> nat)))" by simp
next
  fix cats :: "category list" and x x2
  assume "x \<in> set cats" and "children x = Some x2"
  then have "size_list size x2 < size x" and "size x \<le> size_list size cats"
    by (simp_all add: size_children size_member)
  then show "(x2, cats) \<in> measure (size_list size)"
    by simp
qed

definition ids_with_children :: "category list \<Rightarrow> string set" where
  "ids_with_children cats = cat_id ` set (filter has_children (forest_nodes cats))"

subsection \<open>The data loaders\<close>

text \<open>
  \<open>loadCategories\<close> and \<open>loadUsers\<close> are \<open>async\<close>: the part before the \<open>await\<close> runs
  when the loader is called (\<open>_begin\<close>: \<open>setLoading(true)\<close>, then the request), the rest
  when the request has settled (\<open>_end\<close>: the \<open>try\<close> body after the \<open>await\<close> or the
  \<open>catch\<close> block, then \<open>finally\<close>). Other events may run between the two.
  \<open>loadUsers\<close> reads the page, the page size and the debounced query its closure
  holds, which are those of the state it is called in.
\<close>

definition send_request :: "api_call \<Rightarrow> 'a page_state_scheme \<Rightarrow> 'a page_state_scheme" where
  "send_request call s = s\<lparr>requests := requests s @ [call]\<rparr>"

definition console_error :: "string \<Rightarrow> js_error \<Rightarrow> 'a page_state_scheme \<Rightarrow> 'a page_state_scheme" where
  "console_error label error s = s\<lparr>console := console s @ [(label, error)]\<rparr>"

definition loadCategories_begin :: "string \<Rightarrow> categories_page \<Rightarrow> categories_page" where
  "loadCategories_begin search s = send_request (GetCategories 1 25 search) (s\<lparr>loading := True\<rparr>)"

definition loadCategories_end ::
  "js_error + category list_response \<Rightarrow> categories_page \<Rightarrow> categories_page" where
  "loadCategories_end outcome s =
     (case outcome of
        Inr response \<Rightarrow> s\<lparr>categories := data response\<rparr>
      | Inl error \<Rightarrow> console_error ''Error loading categories:'' error s)
     \<lparr>loading := False\<rparr>"

definition loadCategories ::
  "string \<Rightarrow> js_error + category list_response \<Rightarrow> categories_page \<Rightarrow> categories_page" where
  "loadCategories search outcome s = loadCategories_end outcome (loadCategories_begin search s)"

definition loadUsers_begin :: "users_page \<Rightarrow> users_page" where
  "loadUsers_begin s =
     send_request
       (GetUsers (currentPage (pagination s)) (itemsPerPage (pagination s)) (debouncedSearch s))
       (s\<lparr>loading := True\<rparr>)"

definition loadUsers_end ::
  "js_error + admin_user paged_response \<Rightarrow> users_page \<Rightarrow> users_page" where
  "loadUsers_end outcome s =
     (case outcome of
        Inr response \<Rightarrow> s\<lparr>users := data response, pagination := response_pagination response\<rparr>
      | Inl error \<Rightarrow> console_error ''Error loading users:'' error s)
     \<lparr>loading := False\<rparr>"

definition loadUsers :: "js_error + admin_user paged_response \<Rightarrow> users_page \<Rightarrow> users_page" where
  "loadUsers outcome s = loadUsers_end outcome (loadUsers_begin s)"

subsection \<open>Users page: pagination and search handlers\<close>

definition handlePageChange :: "int \<Rightarrow> users_page \<Rightarrow> users_page" where
  "handlePageChange page s = s\<lparr>pagination := (pagination s)\<lparr>currentPage := page\<rparr>\<rparr>"

definition handleItemsPerPageChange :: "int \<Rightarrow> users_page \<Rightarrow> users_page" where
  "handleItemsPerPageChange n s =
     s\<lparr>pagination := (pagination s)\<lparr>itemsPerPage := n, currentPage := 1\<rparr>\<rparr>"

definition handleSearch :: "string \<Rightarrow> users_page \<Rightarrow> users_page" where
  "handleSearch v s =
     s\<lparr>searchTerm := v, pagination := (pagination s)\<lparr>currentPage := 1\<rparr>\<rparr>"

text \<open>\<open>handleSearch\<close> of the categories page only stores the input.\<close>

definition handleSearch_categories :: "string \<Rightarrow> categories_page \<Rightarrow> categories_page" where
  "handleSearch_categories v s = s\<lparr>searchTerm := v\<rparr>"

subsection \<open>Users page: delete and create\<close>

text \<open>\<open>confirmed\<close> is what the \<open>confirm\<close> dialog returned, \<open>deleted\<close> the outcome of
  \<open>adminApi.deleteUser\<close>, \<open>loaded\<close> the outcome of the request of \<open>loadUsers\<close>.
  \<open>loadUsers\<close> catches every error itself, so awaiting it never throws.\<close>

definition handleDeleteUser ::
  "string \<Rightarrow> bool \<Rightarrow> js_error + unit \<Rightarrow> js_error + admin_user paged_response
     \<Rightarrow> users_page \<Rightarrow> users_page" where
  "handleDeleteUser userId confirmed deleted loaded s =
     (if confirmed then
        (case deleted of
           Inr _ \<Rightarrow> loadUsers loaded (send_request (DeleteUser userId) s)
         | Inl error \<Rightarrow>
             console_error ''Error deleting user:'' error (send_request (DeleteUser userId) s))
      else s)"

text \<open>
  What \<open>fetch\<close> resolved to in \<open>handleCreateUser\<close>: \<open>response.ok\<close>, and the outcome of
  \<open>response.json()\<close>, \<open>Inl\<close> when it rejects and otherwise the \<open>message\<close> field of the
  parsed body (\<open>None\<close> when the body has none).
\<close>

record http_response =
  ok :: bool
  json :: "js_error + string option"

definition show_alert :: "string \<Rightarrow> users_page \<Rightarrow> users_page" where
  "show_alert text s = s\<lparr>alerts := alerts s @ [text]\<rparr>"

text \<open>The \<open>catch\<close> block of \<open>handleCreateUser\<close>.\<close>

definition create_failed :: "js_error \<Rightarrow> users_page \<Rightarrow> users_page" where
  "create_failed error s =
     show_alert (''Error creating user: '' @ error) (console_error ''Error creating user:'' error s)"

definition handleCreateUser ::
  "create_user_input \<Rightarrow> js_error + http_response \<Rightarrow> js_error + admin_user paged_response
     \<Rightarrow> users_page \<Rightarrow> users_page" where
  "handleCreateUser newUser fetched loaded s =
     (case fetched of
        Inl error \<Rightarrow> create_failed error (send_request (Register newUser) s)
      | Inr response \<Rightarrow>
          if \<not> ok response then
            (case json response of
               Inl error \<Rightarrow> create_failed error (send_request (Register newUser) s)
             | Inr message \<Rightarrow>
                 create_failed
                   (case message of
                      None \<Rightarrow> ''Failed to create user''
                    | Some m \<Rightarrow> if m = [] then ''Failed to create user'' else m)
                   (send_request (Register newUser) s))
          else
            (case json response of
               Inl error \<Rightarrow> create_failed error (send_request (Register newUser) s)
             | Inr _ \<Rightarrow>
                 show_alert ''User created successfully!''
                   ((loadUsers loaded (send_request (Register newUser) s))
                      \<lparr>showCreateModal := False\<rparr>)))"

subsection \<open>Effects and the debounce timer\<close>

text \<open>
  A \<open>useEffect\<close> runs after a render in which one of its dependencies differs from the
  previous render; \<open>prev\<close> is the state of the previous render. A state setter called
  with the value the cell already holds changes nothing.

  The debounce effect (\<open>useDebounce(searchTerm, 400)\<close> on the users page, the effect on
  \<open>[searchTerm]\<close> with 500 on the categories page): the cleanup of the previous run
  clears its timeout, then the new run sets a timeout that captures the current value.
\<close>

definition debounce_effect ::
  "nat \<Rightarrow> 'a page_state_scheme \<Rightarrow> 'a page_state_scheme \<Rightarrow> 'a page_state_scheme" where
  "debounce_effect delay prev s =
     (if searchTerm s \<noteq> searchTerm prev then s\<lparr>timer := Some (delay, searchTerm s)\<rparr> else s)"

text \<open>The effect on \<open>[loadUsers]\<close>; the callback is a new one when \<open>currentPage\<close>,
  \<open>itemsPerPage\<close> or the debounced query changed.\<close>

definition loadUsers_deps :: "users_page \<Rightarrow> int \<times> int \<times> string" where
  "loadUsers_deps s = (currentPage (pagination s), itemsPerPage (pagination s), debouncedSearch s)"

definition loadUsers_effect :: "users_page \<Rightarrow> users_page \<Rightarrow> users_page" where
  "loadUsers_effect prev s = (if loadUsers_deps s = loadUsers_deps prev then s else loadUsers_begin s)"

text \<open>The effect on \<open>[debouncedSearch]\<close> of the categories page.\<close>

definition loadCategories_effect :: "categories_page \<Rightarrow> categories_page \<Rightarrow> categories_page" where
  "loadCategories_effect prev s =
     (if debouncedSearch s = debouncedSearch prev then s
      else loadCategories_begin (debouncedSearch s) s)"

text \<open>The callback of the timeout: the captured value goes to the setter of the debounced
  query.\<close>

definition timer_fires :: "string \<Rightarrow> 'a page_state_scheme \<Rightarrow> 'a page_state_scheme" where
  "timer_fires v s = s\<lparr>debouncedSearch := v, timer := None, published := published s @ [v]\<rparr>"

text \<open>An input event in the search field: the handler, then the effects of the render
  that follows.\<close>

definition input_users :: "string \<Rightarrow> users_page \<Rightarrow> users_page" where
  "input_users v s = loadUsers_effect s (debounce_effect 400 s (handleSearch v s))"

definition input_categories :: "string \<Rightarrow> categories_page \<Rightarrow> categories_page" where
  "input_categories v s = loadCategories_effect s (debounce_effect 500 s (handleSearch_categories v s))"

text \<open>\<open>d\<close> milliseconds pass with no other event: a pending timer with at most \<open>d\<close>
  milliseconds left fires, and the effects of the render that follows run.\<close>

definition elapse_users :: "nat \<Rightarrow> users_page \<Rightarrow> users_page" where
  "elapse_users d s =
     (case timer s of
        None \<Rightarrow> s
      | Some (left, v) \<Rightarrow>
          if d < left then s\<lparr>timer := Some (left - d, v)\<rparr>
          else loadUsers_effect s (timer_fires v s))"

definition elapse_categories :: "nat \<Rightarrow> categories_page \<Rightarrow> categories_page" where
  "elapse_categories d s =
     (case timer s of
        None \<Rightarrow> s
      | Some (left, v) \<Rightarrow>
          if d < left then s\<lparr>timer := Some (left - d, v)\<rparr>
          else loadCategories_effect s (timer_fires v s))"

text \<open>A request settles: the rest of the loader runs with the outcome, then the effects
  of the render that follows. A click on a page number: the handler, then the
  effects.\<close>

definition settle_users :: "js_error + admin_user paged_response \<Rightarrow> users_page \<Rightarrow> users_page" where
  "settle_users outcome s = loadUsers_effect s (loadUsers_end outcome s)"

definition settle_categories ::
  "js_error + category list_response \<Rightarrow> categories_page \<Rightarrow> categories_page" where
  "settle_categories outcome s = loadCategories_effect s (loadCategories_end outcome s)"

definition page_change_users :: "int \<Rightarrow> users_page \<Rightarrow> users_page" where
  "page_change_users p s = loadUsers_effect s (handlePageChange p s)"

text \<open>What can happen to a page while the user types: an input event with the new raw
  value, time passing, a request settling with its outcome.\<close>

datatype 'r event = Input string | Elapse nat | Settled "js_error + 'r"

fun step_users :: "admin_user paged_response event \<Rightarrow> users_page \<Rightarrow> users_page" where
  "step_users (Input v) s = input_users v s"
| "step_users (Elapse d) s = elapse_users d s"
| "step_users (Settled outcome) s = settle_users outcome s"

fun step_categories ::
  "category list_response event \<Rightarrow> categories_page \<Rightarrow> categories_page" where
  "step_categories (Input v) s = input_categories v s"
| "step_categories (Elapse d) s = elapse_categories d s"
| "step_categories (Settled outcome) s = settle_categories outcome s"

definition run_users :: "admin_user paged_response event list \<Rightarrow> users_page \<Rightarrow> users_page" where
  "run_users evs s = fold step_users evs s"

definition run_categories ::
  "category list_response event list \<Rightarrow> categories_page \<Rightarrow> categories_page" where
  "run_categories evs s = fold step_categories evs s"

text \<open>
  The events after the first input of a burst, \<open>t\<close> being the milliseconds since the
  last input: every further input comes less than \<open>delay\<close> after the one before, and
  after the last input at least \<open>delay\<close> milliseconds pass. Requests may settle at any
  point.
\<close>

fun burst_ok :: "nat \<Rightarrow> nat \<Rightarrow> 'r event list \<Rightarrow> bool" where
  "burst_ok delay t [] = (delay \<le> t)"
| "burst_ok delay t (Input v # evs) = (t < delay \<and> burst_ok delay 0 evs)"
| "burst_ok delay t (Elapse d # evs) = burst_ok delay (t + d) evs"
| "burst_ok delay t (Settled outcome # evs) = burst_ok delay t evs"

fun inputs_of :: "'r event list \<Rightarrow> string list" where
  "inputs_of [] = []"
| "inputs_of (Input v # evs) = v # inputs_of evs"
| "inputs_of (Elapse d # evs) = inputs_of evs"
| "inputs_of (Settled outcome # evs) = inputs_of evs"

text \<open>The responses of the requests that settle with success.\<close>

fun responses_of :: "'r event list \<Rightarrow> 'r list" where
  "responses_of [] = []"
| "responses_of (Settled (Inr r) # evs) = r # responses_of evs"
| "responses_of (Settled (Inl e) # evs) = responses_of evs"
| "responses_of (Input v # evs) = responses_of evs"
| "responses_of (Elapse d # evs) = responses_of evs"

text \<open>The pages as first rendered (the initial values of the \<open>useState\<close> cells), and
  after the effects of the first render: the debounce timeout is set and the first load
  has begun.\<close>

definition initial_categories_page :: categories_page where
  "initial_categories_page =
     \<lparr>loading = True, searchTerm = [], debouncedSearch = [], showEditModal = False,
      showCreateModal = False, timer = None, published = [], requests = [], console = [],
      categories = [], selectedCategory = None, expandedCategories = {}\<rparr>"

definition mount_categories_page :: categories_page where
  "mount_categories_page =
     loadCategories_begin [] (initial_categories_page\<lparr>timer := Some (500, [])\<rparr>)"

definition initial_users_page :: users_page where
  "initial_users_page =
     \<lparr>loading = True, searchTerm = [], debouncedSearch = [], showEditModal = False,
      showCreateModal = False, timer = None, published = [], requests = [], console = [],
      users = [], selectedUser = None,
      pagination = \<lparr>currentPage = 1, totalPages = 1, totalItems = 0, itemsPerPage = 25\<rparr>,
      alerts = []\<rparr>"

definition mount_users_page :: users_page where
  "mount_users_page = loadUsers_begin (initial_users_page\<lparr>timer := Some (400, [])\<rparr>)"

text \<open>A page that has loaded page 1 and then page 3 of 4.\<close>

definition page_three :: users_page where
  "page_three =
     settle_users
       (Inr \<lparr>data = [], response_pagination =
               \<lparr>currentPage = 3, totalPages = 4, totalItems = 80, itemsPerPage = 25\<rparr>\<rparr>)
       (page_change_users 3
          (settle_users
             (Inr \<lparr>data = [], response_pagination =
                    \<lparr>currentPage = 1, totalPages = 4, totalItems = 80, itemsPerPage = 25\<rparr>\<rparr>)
             (elapse_users 400 mount_users_page)))"

subsection \<open>Users page: the usage bar\<close>

text \<open>
  JavaScript numbers are IEEE 754 doubles: the finite ones are reals, and there are two
  infinities and \<open>NaN\<close>. Negative zero is left out: it prints as \<open>0\<close> in the template
  strings of the page.
\<close>

datatype js_number = Finite real | PlusInfinity | MinusInfinity | NaN

text \<open>
  Rounding a real to the nearest double, ties to the even significand. \<open>binade x\<close> is
  the exponent of \<open>x\<close> (not below that of the subnormal numbers), \<open>ulp x\<close> the distance
  between neighbouring doubles there (53 bits of significand). A result of magnitude
  \<open>2 ^ 1024\<close> or more overflows to an infinity.
\<close>

definition pow2 :: "int \<Rightarrow> real" where
  "pow2 k = (if 0 \<le> k then 2 ^ nat k else 1 / 2 ^ nat (- k))"

definition binade :: "real \<Rightarrow> int" where
  "binade x = max \<lfloor>log 2 \<bar>x\<bar>\<rfloor> (- 1022)"

definition ulp :: "real \<Rightarrow> real" where
  "ulp x = pow2 (binade x - 52)"

definition round_half_even :: "real \<Rightarrow> int" where
  "round_half_even y =
     (if y - of_int \<lfloor>y\<rfloor> < 1 / 2 then \<lfloor>y\<rfloor>
      else if 1 / 2 < y - of_int \<lfloor>y\<rfloor> then \<lfloor>y\<rfloor> + 1
      else if even \<lfloor>y\<rfloor> then \<lfloor>y\<rfloor> else \<lfloor>y\<rfloor> + 1)"

definition to_double :: "real \<Rightarrow> js_number" where
  "to_double x =
     (if x = 0 then Finite 0
      else if 2 ^ 1024 \<le> of_int (round_half_even (x / ulp x)) * ulp x then PlusInfinity
      else if of_int (round_half_even (x / ulp x)) * ulp x \<le> - (2 ^ 1024) then MinusInfinity
      else Finite (of_int (round_half_even (x / ulp x)) * ulp x))"

text \<open>\<open>x / y\<close> on finite doubles, and \<open>q * c\<close> for a finite constant \<open>c > 0\<close>: the exact
  result rounded to a double. A division by zero is not HOL's: it gives an infinity, or
  \<open>NaN\<close> for \<open>0 / 0\<close>.\<close>

definition js_divide :: "real \<Rightarrow> real \<Rightarrow> js_number" where
  "js_divide x y =
     (if y = 0
      then (if x = 0 then NaN else if 0 < x then PlusInfinity else MinusInfinity)
      else to_double (x / y))"

definition js_times :: "js_number \<Rightarrow> real \<Rightarrow> js_number" where
  "js_times q c =
     (case q of
        Finite r \<Rightarrow> to_double (r * c)
      | PlusInfinity \<Rightarrow> PlusInfinity
      | MinusInfinity \<Rightarrow> MinusInfinity
      | NaN \<Rightarrow> NaN)"

text \<open>\<open>(user.wordsUsed / user.totalWords) * 100\<close>.\<close>

definition usage_percent :: "admin_user \<Rightarrow> js_number" where
  "usage_percent u = js_times (js_divide (wordsUsed u) (totalWords u)) 100"

text \<open>\<open>Math.min(x, c)\<close> for a finite \<open>c\<close>, and \<open>Math.round\<close>, the nearest integer with a
  half rounded upwards; neither rounds its result.\<close>

definition Math_min :: "js_number \<Rightarrow> real \<Rightarrow> js_number" where
  "Math_min x c =
     (case x of
        Finite r \<Rightarrow> Finite (min r c)
      | PlusInfinity \<Rightarrow> Finite c
      | MinusInfinity \<Rightarrow> MinusInfinity
      | NaN \<Rightarrow> NaN)"

definition Math_round :: "js_number \<Rightarrow> js_number" where
  "Math_round x = (case x of Finite r \<Rightarrow> Finite (of_int \<lfloor>r + 1 / 2\<rfloor>) | _ \<Rightarrow> x)"

definition usage_bar_width :: "admin_user \<Rightarrow> js_number" where
  "usage_bar_width u = Math_min (usage_percent u) 100"

definition usage_text :: "admin_user \<Rightarrow> js_number" where
  "usage_text u = Math_round (usage_percent u)"

definition mk_user :: "real \<Rightarrow> real \<Rightarrow> admin_user" where
  "mk_user w n =
     \<lparr>firstName = [], lastName = [], email = [], role = User, user_id = [],
      wordsUsed = w, totalWords = n, user_createdAt = []\<rparr>"

text \<open>Fixtures for the concrete checks: a category with the given id and children, every
  other field empty.\<close>

definition mk_category :: "string \<Rightarrow> category list option \<Rightarrow> category" where
  "mk_category i cs =
     Category i [] [] [] project 0 None []
       \<lparr>focus = [], tone = [], quantity = [], contentLength = 0\<rparr> [] [] cs"

definition mk_categories_page :: "category list \<Rightarrow> string set \<Rightarrow> categories_page" where
  "mk_categories_page cats expanded =
     \<lparr>loading = False, searchTerm = [], debouncedSearch = [], showEditModal = False,
      showCreateModal = False, timer = None, published = [], requests = [], console = [],
      categories = cats, selectedCategory = None, expandedCategories = expanded\<rparr>"

subsection \<open>Unfolding the recursive functions one list cell at a time\<close>

declare collectIds.simps [simp del]
declare forest_nodes.simps [simp del]
declare renderCategoryTree.simps [simp del]

lemma forest_nodes_Nil [simp]: "forest_nodes [] = []"
  by (simp add: forest_nodes.simps [of "[]"])

lemma forest_nodes_Cons [simp]:
  "forest_nodes (c # cs) =
     c # (case children c of None \<Rightarrow> [] | Some ds \<Rightarrow> forest_nodes ds) @ forest_nodes cs"
  by (simp add: forest_nodes.simps [of "c # cs"] forest_nodes.simps [of cs])

lemma collectIds_Nil [simp]: "collectIds [] acc = acc"
  by (simp add: collectIds.simps [of "[]"])

lemma collectIds_Cons [simp]:
  "collectIds (c # cs) acc =
     collectIds cs
       (case children c of
          None \<Rightarrow> acc
        | Some ds \<Rightarrow> if length ds > 0 then collectIds ds (insert (cat_id c) acc) else acc)"
  by (simp add: collectIds.simps [of "c # cs"] collectIds.simps [of cs])

lemma renderCategoryTree_Nil [simp]: "renderCategoryTree expanded [] lvl = []"
  by (simp add: renderCategoryTree.simps [of _ "[]"])

lemma renderCategoryTree_Cons [simp]:
  "renderCategoryTree expanded (c # cs) lvl =
     View (lvl > 0)
       (if has_children c then Some (cat_id c, cat_id c \<in> expanded) else None)
       (title c) (cat_alias c) (cat_type c) (level c)
       (case children c of
          None \<Rightarrow> None
        | Some ds \<Rightarrow> if length ds > 0 then Some (length ds) else None)
       (case children c of
          None \<Rightarrow> None
        | Some ds \<Rightarrow>
            if length ds > 0 \<and> cat_id c \<in> expanded
            then Some (renderCategoryTree expanded ds (lvl + 1)) else None)
     # renderCategoryTree expanded cs lvl"
  by (simp add: renderCategoryTree.simps [of _ "c # cs"] renderCategoryTree.simps [of _ cs])

lemma ids_with_children_Nil: "ids_with_children [] = {}"
  by (simp add: ids_with_children_def)

lemma ids_with_children_Cons:
  "ids_with_children (c # cs) =
     (case children c of
        None \<Rightarrow> {}
      | Some ds \<Rightarrow> if length ds > 0 then insert (cat_id c) (ids_with_children ds) else {})
     \<union> ids_with_children cs"
  by (auto simp: ids_with_children_def has_children_def split: option.splits)

lemma collectIds_union: "collectIds cats acc = acc \<union> ids_with_children cats"
proof (induction "size_list size cats" arbitrary: cats acc rule: less_induct)
  case less
  show ?case
  proof (cases cats)
    case Nil
    then show ?thesis by (simp add: ids_with_children_Nil)
  next
    case (Cons c cs)
    have rest: "\<And>a. collectIds cs a = a \<union> ids_with_children cs"
      using less [of cs] Cons by simp
    show ?thesis
    proof (cases "children c")
      case None
      with Cons rest show ?thesis
        by (simp add: ids_with_children_Cons)
    next
      case (Some ds)
      then have "size_list size ds < size_list size cats"
        using size_children [OF Some] Cons by simp
      then have "\<And>a. collectIds ds a = a \<union> ids_with_children ds"
        using less [of ds] by simp
      with Cons Some rest show ?thesis
        by (auto simp: ids_with_children_Cons)
    qed
  qed
qed

subsection \<open>Expand all, collapse all\<close>

text \<open>
  C4. For every forest and every prior state, \<open>expandAllCategories\<close> replaces the
  Expansion Set by exactly the ids of the nodes of the forest that have at least one
  child (the nodes listed in pre-order, leaves filtered out) and leaves every other
  field alone; \<open>collapseAllCategories\<close> replaces it by the empty set; and collapsing
  after expanding gives the empty set whatever the state was before.
\<close>

theorem expandAll_collapseAll:
  "expandAllCategories cats s = s\<lparr>expandedCategories := ids_with_children cats\<rparr>
   \<and> ids_with_children cats = cat_id ` set (filter has_children (forest_nodes cats))
   \<and> collapseAllCategories s = s\<lparr>expandedCategories := {}\<rparr>
   \<and> expandedCategories (collapseAllCategories (expandAllCategories cats s)) = {}"
  by (simp add: expandAllCategories_def collapseAllCategories_def collectIds_union
        ids_with_children_def)

subsection \<open>Toggling one id, and what is drawn\<close>

text \<open>
  C5. For every id and every state, \<open>toggleExpanded\<close> replaces the Expansion Set by
  its symmetric difference with the singleton of that id: the membership of the id is
  flipped and the membership of every other id is as before; toggling the same id
  twice gives back the state. The subtree of a category is drawn exactly when the
  category has children and its id is in the Expansion Set, and then it is the
  rendering of the children one level deeper under the same Expansion Set; with the
  parent's id taken out nothing below the parent is drawn, whatever the flags of the
  descendants are.
\<close>

theorem toggleExpanded_single_id:
  "expandedCategories (toggleExpanded i s) =
      (expandedCategories s - {i}) \<union> ({i} - expandedCategories s)
   \<and> (j \<in> expandedCategories (toggleExpanded i s)) =
      (if j = i then i \<notin> expandedCategories s else j \<in> expandedCategories s)
   \<and> toggleExpanded i (toggleExpanded i s) = s
   \<and> subtree (hd (renderCategoryTree expanded [c] lvl)) =
      (if has_children c \<and> cat_id c \<in> expanded
       then Some (renderCategoryTree expanded (the (children c)) (lvl + 1)) else None)
   \<and> subtree (hd (renderCategoryTree (expandedCategories s - {cat_id c}) [c] lvl)) = None"
  by (auto simp: toggleExpanded_def Let_def has_children_def insert_absorb
           split: option.splits)

text \<open>The scenario of the specification, on the list \<open>[A{children: [B, C]}]\<close> where
  \<open>B\<close> has a child \<open>D\<close> and was expanded before: at first only \<open>A\<close> is drawn; after
  \<open>toggleExpanded A\<close> the rows of \<open>B\<close> (with \<open>D\<close> below it) and \<open>C\<close> are drawn,
  indented; toggling \<open>A\<close> again hides them and once more brings them back as they
  were.\<close>

lemma toggle_scenario:
  fixes A :: category and s0 :: categories_page
  defines "A \<equiv> mk_category ''A''
      (Some [mk_category ''B'' (Some [mk_category ''D'' None]), mk_category ''C'' None])"
  defines "s0 \<equiv> mk_categories_page [A] {''B''}"
  shows "renderCategoryTree (expandedCategories s0) [A] 0 =
           [View False (Some (''A'', False)) [] [] project 0 (Some 2) None]"
    and "renderCategoryTree (expandedCategories (toggleExpanded ''A'' s0)) [A] 0 =
           [View False (Some (''A'', True)) [] [] project 0 (Some 2)
              (Some [View True (Some (''B'', True)) [] [] project 0 (Some 1)
                       (Some [View True None [] [] project 0 None None]),
                     View True None [] [] project 0 None None])]"
    and "renderCategoryTree
           (expandedCategories (toggleExpanded ''A'' (toggleExpanded ''A'' s0))) [A] 0 =
           [View False (Some (''A'', False)) [] [] project 0 (Some 2) None]"
    and "expandedCategories (toggleExpanded ''A'' (toggleExpanded ''A'' s0)) = {''B''}"
  by (auto simp: A_def s0_def mk_category_def mk_categories_page_def has_children_def
        toggleExpanded_def Let_def)

subsection \<open>Leaves\<close>

text \<open>
  C9. For a category with no children (\<open>children\<close> absent or empty) the row is drawn
  with the spacer and no expand button. The button is the only place that calls
  \<open>toggleExpanded\<close>, so toggling a leaf is a click on a row without a handler: the
  page state, and with it the Expansion Set, is after the click what it was before.
  The row of a leaf is also the same under every Expansion Set.
\<close>

theorem leaf_has_no_control:
  "\<not> has_children c \<Longrightarrow>
     control (hd (renderCategoryTree expanded [c] lvl)) = None
     \<and> click_control (hd (renderCategoryTree expanded [c] lvl)) s = s
     \<and> expandedCategories (click_control (hd (renderCategoryTree expanded [c] lvl)) s) =
       expandedCategories s
     \<and> renderCategoryTree expanded' [c] lvl = renderCategoryTree expanded [c] lvl"
  by (auto simp: has_children_def click_control_def split: option.splits)

theorem leaf_has_no_control_witness:
  "\<not> has_children (mk_category ''B'' None)
   \<and> control (hd (renderCategoryTree {''B''} [mk_category ''B'' None] 1)) = None
   \<and> expandedCategories
        (click_control (hd (renderCategoryTree {''A''} [mk_category ''B'' (Some [])] 1))
           (mk_categories_page [mk_category ''B'' (Some [])] {''A''})) = {''A''}"
  using leaf_has_no_control [of "mk_category ''B'' None" "{''B''}" 1
      "mk_categories_page [mk_category ''B'' None] {}" "{}"]
    leaf_has_no_control [of "mk_category ''B'' (Some [])" "{''A''}" 1
      "mk_categories_page [mk_category ''B'' (Some [])] {''A''}" "{}"]
  by (simp add: has_children_def mk_category_def mk_categories_page_def)

subsection \<open>Load failures and the loading flag\<close>

text \<open>
  C2. When the request of a load fails, the \<open>catch\<close> block and \<open>finally\<close> change
  nothing but the console log and the loading flag, in whatever state the failure
  arrives. So a whole failed execution of \<open>loadUsers\<close> leaves the list of users and the
  pagination snapshot as they were, writes one line to the console, raises no alert and
  ends with the loading flag cleared; a failed \<open>loadCategories\<close> does the same for the
  list of categories.
\<close>

theorem load_failure_keeps_state:
  "loadUsers_end (Inl e) s1 = (console_error ''Error loading users:'' e s1)\<lparr>loading := False\<rparr>
   \<and> users (loadUsers (Inl e) s) = users s
   \<and> pagination (loadUsers (Inl e) s) = pagination s
   \<and> console (loadUsers (Inl e) s) = console s @ [(''Error loading users:'', e)]
   \<and> alerts (loadUsers (Inl e) s) = alerts s
   \<and> loading (loadUsers (Inl e) s) = False
   \<and> loadCategories_end (Inl e) c1 =
       (console_error ''Error loading categories:'' e c1)\<lparr>loading := False\<rparr>
   \<and> categories (loadCategories q (Inl e) c) = categories c
   \<and> console (loadCategories q (Inl e) c) = console c @ [(''Error loading categories:'', e)]
   \<and> loading (loadCategories q (Inl e) c) = False"
  by (simp add: loadUsers_def loadUsers_end_def loadUsers_begin_def loadCategories_def
        loadCategories_end_def loadCategories_begin_def console_error_def send_request_def)

text \<open>
  C3. A load sets the loading flag and sends its request from the state with the flag
  set; when the request settles, with either outcome and in whatever state the page
  is by then, the flag is cleared. So no execution of \<open>loadUsers\<close> or \<open>loadCategories\<close>
  that has completed leaves the flag set.
\<close>

theorem loading_flag_released:
  "loadUsers_begin s =
      send_request
        (GetUsers (currentPage (pagination s)) (itemsPerPage (pagination s)) (debouncedSearch s))
        (s\<lparr>loading := True\<rparr>)
   \<and> loading (loadUsers_begin s) = True
   \<and> loading (loadUsers_end outcome s1) = False
   \<and> loading (loadUsers outcome s) = False
   \<and> loadCategories_begin q c = send_request (GetCategories 1 25 q) (c\<lparr>loading := True\<rparr>)
   \<and> loading (loadCategories_begin q c) = True
   \<and> loading (loadCategories_end outcome' c1) = False
   \<and> loading (loadCategories q outcome' c) = False"
  by (simp add: loadUsers_def loadUsers_end_def loadUsers_begin_def loadCategories_def
        loadCategories_end_def loadCategories_begin_def console_error_def send_request_def
      split: sum.splits)

subsection \<open>Pagination handlers\<close>

text \<open>
  C6. On the users page, \<open>handleItemsPerPageChange\<close> stores the new page size and sets
  \<open>currentPage\<close> to 1; \<open>handleSearch\<close> stores the raw input and sets \<open>currentPage\<close> to
  1; \<open>handlePageChange p\<close> stores \<open>p\<close>, whatever number it is, as \<open>currentPage\<close> and
  changes nothing else: \<open>totalPages\<close>, \<open>totalItems\<close> and \<open>itemsPerPage\<close> are as before.
\<close>

theorem pagination_handlers:
  "currentPage (pagination (handleItemsPerPageChange n s)) = 1
   \<and> itemsPerPage (pagination (handleItemsPerPageChange n s)) = n
   \<and> currentPage (pagination (handleSearch v s)) = 1
   \<and> searchTerm (handleSearch v s) = v
   \<and> handlePageChange p s = s\<lparr>pagination := (pagination s)\<lparr>currentPage := p\<rparr>\<rparr>
   \<and> currentPage (pagination (handlePageChange p s)) = p
   \<and> totalPages (pagination (handlePageChange p s)) = totalPages (pagination s)
   \<and> totalItems (pagination (handlePageChange p s)) = totalItems (pagination s)
   \<and> itemsPerPage (pagination (handlePageChange p s)) = itemsPerPage (pagination s)"
  by (simp add: handleItemsPerPageChange_def handleSearch_def handlePageChange_def)

subsection \<open>Creating and deleting users\<close>

text \<open>
  C7, as the specification states it: after a successful create, the one reload is a
  request for the first page. On a page state whose \<open>currentPage\<close> is 3 the reload asks
  for page 3.
\<close>

theorem create_reload_first_page_counterexample:
  "\<not> (\<forall>u response body loaded s.
         ok response \<longrightarrow> json response = Inr body \<longrightarrow>
         (\<exists>n q. requests (handleCreateUser u (Inr response) loaded s) =
                  requests s @ [Register u, GetUsers 1 n q]))"
proof
  assume claim: "\<forall>u response body loaded s.
         ok response \<longrightarrow> json response = Inr body \<longrightarrow>
         (\<exists>n q. requests (handleCreateUser u (Inr response) loaded s) =
                  requests s @ [Register u, GetUsers 1 n q])"
  define u where "u = \<lparr>firstName = ''A'', lastName = ''B'', email = ''a@b'', role = User,
    password = ''p''\<rparr>"
  define s where "s = initial_users_page\<lparr>pagination :=
    \<lparr>currentPage = 3, totalPages = 4, totalItems = 80, itemsPerPage = 25\<rparr>\<rparr>"
  have "ok \<lparr>ok = True, json = Inr None\<rparr>" and "json \<lparr>ok = True, json = Inr None\<rparr> = Inr None"
    by simp_all
  with claim have "\<exists>n q. requests (handleCreateUser u (Inr \<lparr>ok = True, json = Inr None\<rparr>)
      (Inl ''offline'') s) = requests s @ [Register u, GetUsers 1 n q]"
    by blast
  then show False
    by (simp add: s_def initial_users_page_def handleCreateUser_def loadUsers_def
          loadUsers_end_def loadUsers_begin_def console_error_def send_request_def
          show_alert_def)
qed

text \<open>
  C7, amended. A successful create (the register request answered with an ok status
  and a body that parses) closes the create modal, and the handler sends exactly one
  reload after the register request: the request for the current page, page size and
  debounced query of the page state, which is the first page only when \<open>currentPage\<close>
  is 1. The reload effect that runs afterwards sends a further request only when the
  answer to the reload changed \<open>currentPage\<close> or \<open>itemsPerPage\<close>.
\<close>

theorem create_success_reloads_once:
  assumes "ok response" and "json response = Inr body"
  shows "showCreateModal (handleCreateUser u (Inr response) loaded s) = False
   \<and> requests (handleCreateUser u (Inr response) loaded s) =
       requests s @
       [Register u,
        GetUsers (currentPage (pagination s)) (itemsPerPage (pagination s)) (debouncedSearch s)]
   \<and> loadUsers_effect s (handleCreateUser u (Inr response) loaded s) =
       (if (case loaded of
              Inl error \<Rightarrow> True
            | Inr r \<Rightarrow> currentPage (response_pagination r) = currentPage (pagination s)
                      \<and> itemsPerPage (response_pagination r) = itemsPerPage (pagination s))
        then handleCreateUser u (Inr response) loaded s
        else loadUsers_begin (handleCreateUser u (Inr response) loaded s))"
  using assms
  by (auto simp: handleCreateUser_def loadUsers_def loadUsers_end_def loadUsers_begin_def
        console_error_def send_request_def show_alert_def loadUsers_effect_def
        loadUsers_deps_def split: sum.splits)

theorem create_success_reloads_once_witness:
  "ok \<lparr>ok = True, json = Inr None\<rparr>
   \<and> json \<lparr>ok = True, json = Inr None\<rparr> = Inr None
   \<and> showCreateModal
        (handleCreateUser
           \<lparr>firstName = ''A'', lastName = ''B'', email = ''a@b'', role = User, password = ''p''\<rparr>
           (Inr \<lparr>ok = True, json = Inr None\<rparr>) (Inl ''offline'')
           (initial_users_page\<lparr>showCreateModal := True\<rparr>)) = False
   \<and> requests
        (handleCreateUser
           \<lparr>firstName = ''A'', lastName = ''B'', email = ''a@b'', role = User, password = ''p''\<rparr>
           (Inr \<lparr>ok = True, json = Inr None\<rparr>) (Inl ''offline'')
           (initial_users_page\<lparr>showCreateModal := True\<rparr>)) =
      [Register
         \<lparr>firstName = ''A'', lastName = ''B'', email = ''a@b'', role = User, password = ''p''\<rparr>,
       GetUsers 1 25 []]"
  using create_success_reloads_once
    [of "\<lparr>ok = True, json = Inr None\<rparr>" None
        "\<lparr>firstName = ''A'', lastName = ''B'', email = ''a@b'', role = User, password = ''p''\<rparr>"
        "Inl ''offline''" "initial_users_page\<lparr>showCreateModal := True\<rparr>"]
  by (simp add: initial_users_page_def)

text \<open>
  C8. When the confirmation dialog is cancelled, \<open>handleDeleteUser\<close> returns the page
  state as it was: no request is sent, neither the delete nor a reload. The delete
  request is in the log exactly when the dialog was confirmed, and the reload follows
  it exactly when the delete succeeded.
\<close>

theorem delete_needs_confirmation:
  "handleDeleteUser userId False deleted loaded s = s
   \<and> requests (handleDeleteUser userId confirmed deleted loaded s) =
       requests s @
       (if confirmed
        then DeleteUser userId #
          (case deleted of
             Inl error \<Rightarrow> []
           | Inr u \<Rightarrow> [GetUsers (currentPage (pagination s)) (itemsPerPage (pagination s))
                        (debouncedSearch s)])
        else [])"
  by (simp add: handleDeleteUser_def loadUsers_def loadUsers_end_def loadUsers_begin_def
        console_error_def send_request_def split: sum.splits)

subsection \<open>The usage bar\<close>

text \<open>Evaluating the rounding: the binade of a number between two neighbouring powers
  of two, a number of magnitude \<open>2 ^ 1024\<close> or more, and the examples used below.\<close>

lemma pow2_powr: "pow2 k = 2 powr of_int k"
  by (simp add: pow2_def powr_real_of_int divide_inverse)

lemma pow2_add: "pow2 (a + b) = pow2 a * pow2 b"
  by (simp add: pow2_powr powr_add)

lemma pow2_pos: "0 < pow2 k"
  by (simp add: pow2_powr)

lemma pow2_mono: "a \<le> b \<Longrightarrow> pow2 a \<le> pow2 b"
  by (simp add: pow2_powr)

lemma binade_eq:
  assumes "pow2 k \<le> \<bar>x\<bar>" and "\<bar>x\<bar> < pow2 (k + 1)" and "- 1022 \<le> k"
  shows "binade x = k"
proof -
  have pos: "0 < \<bar>x\<bar>" using assms(1) pow2_pos [of k] by linarith
  have "\<lfloor>log 2 \<bar>x\<bar>\<rfloor> = k"
    using assms(1,2) pos by (simp add: floor_log_eq_powr_iff pow2_powr)
  with assms(3) show ?thesis by (simp add: binade_def)
qed

lemma to_double_eval:
  assumes "pow2 k \<le> \<bar>x\<bar>" and "\<bar>x\<bar> < pow2 (k + 1)" and "- 1022 \<le> k"
    and "round_half_even (x / pow2 (k - 52)) = m"
    and "\<bar>of_int m * pow2 (k - 52)\<bar> < 2 ^ 1024"
  shows "to_double x = Finite (of_int m * pow2 (k - 52))"
proof -
  have "x \<noteq> 0" using assms(1) pow2_pos [of k] by auto
  moreover have "ulp x = pow2 (k - 52)"
    by (simp only: ulp_def binade_eq [OF assms(1-3)])
  ultimately show ?thesis
    using assms(5) by (simp only: to_double_def assms(4)) auto
qed

lemma round_half_even_ge:
  assumes "of_int n \<le> y"
  shows "n \<le> round_half_even y"
proof -
  have "n \<le> \<lfloor>y\<rfloor>" using assms by (simp add: le_floor_iff)
  moreover have "\<lfloor>y\<rfloor> \<le> round_half_even y" by (simp add: round_half_even_def)
  ultimately show ?thesis by linarith
qed

lemma to_double_overflow:
  assumes "pow2 1024 \<le> x"
  shows "to_double x = PlusInfinity"
proof -
  have x: "0 < x" using assms pow2_pos [of 1024] by linarith
  define e where "e = \<lfloor>log 2 x\<rfloor>"
  have "(2::real) powr of_int 1024 \<le> x" using assms by (simp only: pow2_powr)
  then have "of_int 1024 \<le> log 2 x" using x by (subst le_log_iff) simp_all
  then have e: "1024 \<le> e" unfolding e_def by (simp only: le_floor_iff)
  have be: "binade x = e" using e x by (simp add: binade_def e_def)
  have "2 powr of_int e \<le> x"
    using x floor_log_eq_powr_iff [of x 2 e] by (simp add: e_def)
  then have lo: "pow2 e \<le> x" by (simp only: pow2_powr)
  have u: "ulp x = pow2 (e - 52)" by (simp only: ulp_def be)
  have split: "pow2 e = pow2 52 * pow2 (e - 52)"
    using pow2_add [of 52 "e - 52"] by simp
  have p52: "pow2 52 = of_int (2 ^ 52)" by (simp add: pow2_def)
  have "pow2 52 \<le> x / ulp x"
    using lo pow2_pos [of "e - 52"] by (simp only: u split pos_le_divide_eq)
  then have "2 ^ 52 \<le> round_half_even (x / ulp x)"
    unfolding p52 by (rule round_half_even_ge)
  then have "of_int (2 ^ 52) \<le> (of_int (round_half_even (x / ulp x)) :: real)"
    by (simp only: of_int_le_iff)
  then have "pow2 52 * pow2 (e - 52) \<le> of_int (round_half_even (x / ulp x)) * ulp x"
    unfolding p52 [symmetric] u using pow2_pos [of "e - 52"]
    by (intro mult_right_mono) simp_all
  then have "pow2 e \<le> of_int (round_half_even (x / ulp x)) * ulp x"
    by (simp only: split)
  moreover have "pow2 1024 \<le> pow2 e" using e by (rule pow2_mono)
  moreover have "pow2 1024 = 2 ^ 1024" by (simp add: pow2_def)
  ultimately have "2 ^ 1024 \<le> of_int (round_half_even (x / ulp x)) * ulp x"
    by linarith
  then show ?thesis using x by (simp only: to_double_def) auto
qed



lemma mk_user_sel: "wordsUsed (mk_user w n) = w" "totalWords (mk_user w n) = n"
  by (simp_all add: mk_user_def)



text \<open>29 of 200 words: the quotient is rounded, and so is the product, which falls
  below 14.5.\<close>

lemma usage_percent_29_200:
  "usage_percent (mk_user 29 200) = Finite (8162774324609023 / 2 ^ 49)"
proof -
  have d: "js_divide 29 200 = Finite (5224175567749775 / 2 ^ 55)"
    using to_double_eval [of "- 3" "29 / 200" 5224175567749775]
    by (simp add: js_divide_def pow2_def round_half_even_def)
  have m: "js_times (Finite (5224175567749775 / 2 ^ 55)) 100 = Finite (8162774324609023 / 2 ^ 49)"
    using to_double_eval [of 3 "5224175567749775 / 2 ^ 55 * 100" 8162774324609023]
    by (simp add: js_times_def pow2_def round_half_even_def)
  show ?thesis by (simp only: usage_percent_def mk_user_sel d m)
qed

lemma usage_29_200:
  "usage_bar_width (mk_user 29 200) = Finite (8162774324609023 / 2 ^ 49)"
  "usage_text (mk_user 29 200) = Finite 14"
  by (simp_all add: usage_bar_width_def usage_text_def usage_percent_29_200 Math_min_def
        Math_round_def)

text \<open>\<open>2 ^ 1023\<close> words of 1: the product overflows; the bar is full and the text is
  \<open>Infinity\<close>.\<close>

lemma usage_percent_overflow: "usage_percent (mk_user (2 ^ 1023) 1) = PlusInfinity"
proof -
  have d: "js_divide (2 ^ 1023) 1 = Finite (2 ^ 1023)"
    using to_double_eval [of 1023 "2 ^ 1023 / 1" "2 ^ 52"]
    by (simp add: js_divide_def pow2_def round_half_even_def)
  have "to_double (2 ^ 1023 * 100) = PlusInfinity"
    by (rule to_double_overflow) (simp add: pow2_def)
  then have m: "js_times (Finite (2 ^ 1023)) 100 = PlusInfinity"
    by (simp only: js_times_def js_number.case)
  show ?thesis by (simp only: usage_percent_def mk_user_sel d m)
qed

lemma usage_overflow:
  "usage_bar_width (mk_user (2 ^ 1023) 1) = Finite 100"
  "usage_text (mk_user (2 ^ 1023) 1) = PlusInfinity"
  by (simp_all only: usage_bar_width_def usage_text_def usage_percent_overflow Math_min_def
        Math_round_def js_number.case)



subsection \<open>The debounced search\<close>

text \<open>
  A burst is a first input followed by further events: inputs, each less than the delay
  after the input before and each changing the raw value (an input event carries a new
  value; a setter called with the value already held changes nothing), the time
  passing, at least the delay after the last input, and requests settling at any
  point in between.
\<close>

lemma currentPage_idem: "currentPage p = 1 \<Longrightarrow> p\<lparr>currentPage := 1\<rparr> = p"
  by (cases p) simp

lemma burst_ok_late: "delay \<le> t \<Longrightarrow> burst_ok delay t evs \<Longrightarrow> inputs_of evs = []"
  by (induction delay t evs rule: burst_ok.induct) auto

lemma run_users_Cons: "run_users (ev # evs) s = run_users evs (step_users ev s)"
  by (simp add: run_users_def)

lemma run_users_Nil: "run_users [] s = s"
  by (simp add: run_users_def)

lemma input_users_first:
  assumes "v \<noteq> searchTerm s"
  shows "input_users v s =
     (if currentPage (pagination s) = 1
      then s\<lparr>searchTerm := v, timer := Some (400, v)\<rparr>
      else s\<lparr>searchTerm := v, pagination := (pagination s)\<lparr>currentPage := 1\<rparr>,
             timer := Some (400, v), loading := True,
             requests := requests s @
               [GetUsers 1 (itemsPerPage (pagination s)) (debouncedSearch s)]\<rparr>)"
  using assms
  by (simp add: input_users_def handleSearch_def debounce_effect_def loadUsers_effect_def
        loadUsers_deps_def loadUsers_begin_def send_request_def currentPage_idem)

text \<open>A response that reports the page and the page size the page holds leaves the
  search, the timer and the request log alone.\<close>

lemma settle_users_frame:
  assumes "case outcome of
             Inl e \<Rightarrow> True
           | Inr r \<Rightarrow> currentPage (response_pagination r) = currentPage (pagination s)
                     \<and> itemsPerPage (response_pagination r) = itemsPerPage (pagination s)"
  shows "searchTerm (settle_users outcome s) = searchTerm s"
    and "debouncedSearch (settle_users outcome s) = debouncedSearch s"
    and "timer (settle_users outcome s) = timer s"
    and "published (settle_users outcome s) = published s"
    and "requests (settle_users outcome s) = requests s"
    and "currentPage (pagination (settle_users outcome s)) = currentPage (pagination s)"
    and "itemsPerPage (pagination (settle_users outcome s)) = itemsPerPage (pagination s)"
  using assms
  by (auto simp: settle_users_def loadUsers_end_def loadUsers_effect_def loadUsers_deps_def
        console_error_def split: sum.splits)

lemma responses_of_Settled: "set (responses_of evs) \<subseteq> set (responses_of (Settled outcome # evs))"
  by (cases outcome) auto

lemma responses_of_head:
  "\<forall>r \<in> set (responses_of (Settled outcome # evs)). P r \<Longrightarrow>
     (case outcome of Inl e \<Rightarrow> True | Inr r \<Rightarrow> P r)"
  by (cases outcome) auto

lemma run_users_idle:
  assumes "timer s = None"
    and "inputs_of evs = []"
    and "\<forall>r \<in> set (responses_of evs).
           currentPage (response_pagination r) = currentPage (pagination s)
           \<and> itemsPerPage (response_pagination r) = itemsPerPage (pagination s)"
  shows "searchTerm (run_users evs s) = searchTerm s
   \<and> debouncedSearch (run_users evs s) = debouncedSearch s
   \<and> timer (run_users evs s) = None
   \<and> published (run_users evs s) = published s
   \<and> requests (run_users evs s) = requests s
   \<and> currentPage (pagination (run_users evs s)) = currentPage (pagination s)
   \<and> itemsPerPage (pagination (run_users evs s)) = itemsPerPage (pagination s)"
  using assms
proof (induction evs arbitrary: s)
  case Nil
  then show ?case by (simp add: run_users_Nil)
next
  case (Cons ev evs)
  show ?case
  proof (cases ev)
    case (Input v)
    with Cons.prems(2) show ?thesis by simp
  next
    case (Elapse d)
    have same: "step_users ev s = s"
      using Cons.prems(1) by (simp add: Elapse elapse_users_def)
    have "inputs_of evs = []" using Cons.prems(2) by (simp add: Elapse)
    moreover have "\<forall>r \<in> set (responses_of evs).
           currentPage (response_pagination r) = currentPage (pagination s)
           \<and> itemsPerPage (response_pagination r) = itemsPerPage (pagination s)"
      using Cons.prems(3) by (simp add: Elapse)
    ultimately show ?thesis
      using Cons.IH [OF Cons.prems(1)] by (simp only: run_users_Cons same)
  next
    case (Settled outcome)
    have ok: "case outcome of
             Inl e \<Rightarrow> True
           | Inr r \<Rightarrow> currentPage (response_pagination r) = currentPage (pagination s)
                     \<and> itemsPerPage (response_pagination r) = itemsPerPage (pagination s)"
      using Cons.prems(3) unfolding Settled by (rule responses_of_head)
    note f = settle_users_frame [OF ok]
    have a: "timer (settle_users outcome s) = None" using Cons.prems(1) by (simp add: f)
    have b: "inputs_of evs = []" using Cons.prems(2) by (simp add: Settled)
    have c: "\<forall>r \<in> set (responses_of evs).
           currentPage (response_pagination r) = currentPage (pagination (settle_users outcome s))
           \<and> itemsPerPage (response_pagination r) =
             itemsPerPage (pagination (settle_users outcome s))"
      using Cons.prems(3) responses_of_Settled [of evs outcome]
      unfolding Settled f by blast
    show ?thesis
      using Cons.IH [OF a b c] by (simp add: run_users_Cons Settled f)
  qed
qed

lemma run_users_pending:
  assumes "timer s = Some (400 - t, searchTerm s)"
    and "t < 400"
    and "currentPage (pagination s) = 1"
    and "burst_ok 400 t evs"
    and "distinct_adj (searchTerm s # inputs_of evs)"
    and "\<forall>r \<in> set (responses_of evs).
           currentPage (response_pagination r) = 1
           \<and> itemsPerPage (response_pagination r) = itemsPerPage (pagination s)"
  shows "searchTerm (run_users evs s) = last (searchTerm s # inputs_of evs)
   \<and> debouncedSearch (run_users evs s) = last (searchTerm s # inputs_of evs)
   \<and> timer (run_users evs s) = None
   \<and> published (run_users evs s) = published s @ [last (searchTerm s # inputs_of evs)]
   \<and> requests (run_users evs s) =
       requests s @
       (if last (searchTerm s # inputs_of evs) = debouncedSearch s then []
        else [GetUsers 1 (itemsPerPage (pagination s)) (last (searchTerm s # inputs_of evs))])
   \<and> currentPage (pagination (run_users evs s)) = 1
   \<and> itemsPerPage (pagination (run_users evs s)) = itemsPerPage (pagination s)"
  using assms
proof (induction evs arbitrary: s t)
  case Nil
  then show ?case by simp
next
  case (Cons ev evs)
  show ?case
  proof (cases ev)
    case (Input v)
    from Cons.prems(5) have v: "v \<noteq> searchTerm s" by (auto simp: Input)
    define s1 where "s1 = input_users v s"
    have s1: "s1 = s\<lparr>searchTerm := v, timer := Some (400, v)\<rparr>"
      using Cons.prems(3) by (simp add: s1_def input_users_first [OF v])
    have a: "timer s1 = Some (400 - 0, searchTerm s1)" by (simp add: s1)
    have b: "(0::nat) < 400" by simp
    have c: "currentPage (pagination s1) = 1" using Cons.prems(3) by (simp add: s1)
    have d: "burst_ok 400 0 evs" using Cons.prems(4) by (simp add: Input)
    have e: "distinct_adj (searchTerm s1 # inputs_of evs)"
      using Cons.prems(5) by (simp add: s1 Input)
    have f: "\<forall>r \<in> set (responses_of evs).
           currentPage (response_pagination r) = 1
           \<and> itemsPerPage (response_pagination r) = itemsPerPage (pagination s1)"
      using Cons.prems(6) by (simp add: s1 Input)
    have "step_users ev s = s1" by (simp add: Input s1_def)
    then show ?thesis
      using Cons.IH [OF a b c d e f] by (simp add: run_users_Cons Input) (simp add: s1)
  next
    case (Elapse d)
    show ?thesis
    proof (cases "t + d < 400")
      case True
      define s1 where "s1 = elapse_users d s"
      have s1: "s1 = s\<lparr>timer := Some (400 - (t + d), searchTerm s)\<rparr>"
        using Cons.prems(1) True by (simp add: s1_def elapse_users_def)
      have a: "timer s1 = Some (400 - (t + d), searchTerm s1)" by (simp add: s1)
      have c: "currentPage (pagination s1) = 1" using Cons.prems(3) by (simp add: s1)
      have b: "burst_ok 400 (t + d) evs" using Cons.prems(4) by (simp add: Elapse)
      have e: "distinct_adj (searchTerm s1 # inputs_of evs)"
        using Cons.prems(5) by (simp add: s1 Elapse)
      have f: "\<forall>r \<in> set (responses_of evs).
           currentPage (response_pagination r) = 1
           \<and> itemsPerPage (response_pagination r) = itemsPerPage (pagination s1)"
        using Cons.prems(6) by (simp add: s1 Elapse)
      have "step_users ev s = s1" by (simp add: Elapse s1_def)
      then show ?thesis
        using Cons.IH [OF a True c b e f] by (simp add: run_users_Cons Elapse) (simp add: s1)
    next
      case False
      define s1 where "s1 = elapse_users d s"
      have fired: "s1 = loadUsers_effect s (timer_fires (searchTerm s) s)"
        using Cons.prems(1,2) False by (simp add: s1_def elapse_users_def)
      have f: "searchTerm s1 = searchTerm s" "debouncedSearch s1 = searchTerm s"
        "timer s1 = None" "published s1 = published s @ [searchTerm s]"
        "requests s1 = requests s @
           (if searchTerm s = debouncedSearch s then []
            else [GetUsers 1 (itemsPerPage (pagination s)) (searchTerm s)])"
        "currentPage (pagination s1) = 1"
        "itemsPerPage (pagination s1) = itemsPerPage (pagination s)"
        using Cons.prems(3)
        by (auto simp: fired timer_fires_def loadUsers_effect_def loadUsers_deps_def
              loadUsers_begin_def send_request_def)
      have none: "inputs_of evs = []"
        using burst_ok_late [of 400 "t + d" evs] False Cons.prems(4) by (simp add: Elapse)
      have g: "\<forall>r \<in> set (responses_of evs).
           currentPage (response_pagination r) = currentPage (pagination s1)
           \<and> itemsPerPage (response_pagination r) = itemsPerPage (pagination s1)"
        using Cons.prems(6) by (simp add: f Elapse)
      have "step_users ev s = s1" by (simp add: Elapse s1_def)
      then show ?thesis
        using run_users_idle [OF f(3) none g]
        by (simp add: run_users_Cons Elapse none f)
    qed
  next
    case (Settled outcome)
    have "case outcome of Inl e \<Rightarrow> True
          | Inr r \<Rightarrow> currentPage (response_pagination r) = 1
                    \<and> itemsPerPage (response_pagination r) = itemsPerPage (pagination s)"
      using Cons.prems(6) unfolding Settled by (rule responses_of_head)
    then have ok: "case outcome of
             Inl e \<Rightarrow> True
           | Inr r \<Rightarrow> currentPage (response_pagination r) = currentPage (pagination s)
                     \<and> itemsPerPage (response_pagination r) = itemsPerPage (pagination s)"
      using Cons.prems(3) by (cases outcome) simp_all
    note f = settle_users_frame [OF ok]
    define s1 where "s1 = settle_users outcome s"
    have a: "timer s1 = Some (400 - t, searchTerm s1)"
      using Cons.prems(1) by (simp add: s1_def f)
    have c: "currentPage (pagination s1) = 1" using Cons.prems(3) by (simp add: s1_def f)
    have b: "burst_ok 400 t evs" using Cons.prems(4) by (simp add: Settled)
    have e: "distinct_adj (searchTerm s1 # inputs_of evs)"
      using Cons.prems(5) by (simp add: s1_def f Settled)
    have g: "\<forall>r \<in> set (responses_of evs).
           currentPage (response_pagination r) = 1
           \<and> itemsPerPage (response_pagination r) = itemsPerPage (pagination s1)"
      using Cons.prems(6) responses_of_Settled [of evs outcome]
      unfolding Settled s1_def f by blast
    have "step_users ev s = s1" by (simp add: Settled s1_def)
    then show ?thesis
      using Cons.IH [OF a Cons.prems(2) c b e g]
      by (simp add: run_users_Cons Settled) (simp add: s1_def f)
  qed
qed

lemma run_categories_Cons:
  "run_categories (ev # evs) s = run_categories evs (step_categories ev s)"
  by (simp add: run_categories_def)

lemma run_categories_Nil: "run_categories [] s = s"
  by (simp add: run_categories_def)

lemma input_categories_first:
  assumes "v \<noteq> searchTerm c"
  shows "input_categories v c = c\<lparr>searchTerm := v, timer := Some (500, v)\<rparr>"
  using assms
  by (simp add: input_categories_def handleSearch_categories_def debounce_effect_def
        loadCategories_effect_def)

lemma settle_categories_frame:
  shows "searchTerm (settle_categories outcome c) = searchTerm c"
    and "debouncedSearch (settle_categories outcome c) = debouncedSearch c"
    and "timer (settle_categories outcome c) = timer c"
    and "published (settle_categories outcome c) = published c"
    and "requests (settle_categories outcome c) = requests c"
  by (auto simp: settle_categories_def loadCategories_end_def loadCategories_effect_def
        console_error_def split: sum.splits)

lemma run_categories_idle:
  assumes "timer c = None" and "inputs_of evs = []"
  shows "searchTerm (run_categories evs c) = searchTerm c
   \<and> debouncedSearch (run_categories evs c) = debouncedSearch c
   \<and> timer (run_categories evs c) = None
   \<and> published (run_categories evs c) = published c
   \<and> requests (run_categories evs c) = requests c"
  using assms
proof (induction evs arbitrary: c)
  case Nil
  then show ?case by (simp add: run_categories_Nil)
next
  case (Cons ev evs)
  show ?case
  proof (cases ev)
    case (Input v)
    with Cons.prems(2) show ?thesis by simp
  next
    case (Elapse d)
    have same: "step_categories ev c = c"
      using Cons.prems(1) by (simp add: Elapse elapse_categories_def)
    have "inputs_of evs = []" using Cons.prems(2) by (simp add: Elapse)
    then show ?thesis
      using Cons.IH [OF Cons.prems(1)] by (simp only: run_categories_Cons same)
  next
    case (Settled outcome)
    note f = settle_categories_frame [of outcome c]
    have a: "timer (settle_categories outcome c) = None" using Cons.prems(1) by (simp add: f)
    have b: "inputs_of evs = []" using Cons.prems(2) by (simp add: Settled)
    show ?thesis
      using Cons.IH [OF a b] by (simp add: run_categories_Cons Settled f)
  qed
qed

lemma run_categories_pending:
  assumes "timer c = Some (500 - t, searchTerm c)"
    and "t < 500"
    and "burst_ok 500 t evs"
    and "distinct_adj (searchTerm c # inputs_of evs)"
  shows "searchTerm (run_categories evs c) = last (searchTerm c # inputs_of evs)
   \<and> debouncedSearch (run_categories evs c) = last (searchTerm c # inputs_of evs)
   \<and> timer (run_categories evs c) = None
   \<and> published (run_categories evs c) = published c @ [last (searchTerm c # inputs_of evs)]
   \<and> requests (run_categories evs c) =
       requests c @
       (if last (searchTerm c # inputs_of evs) = debouncedSearch c then []
        else [GetCategories 1 25 (last (searchTerm c # inputs_of evs))])"
  using assms
proof (induction evs arbitrary: c t)
  case Nil
  then show ?case by simp
next
  case (Cons ev evs)
  show ?case
  proof (cases ev)
    case (Input v)
    from Cons.prems(4) have v: "v \<noteq> searchTerm c" by (auto simp: Input)
    define c1 where "c1 = input_categories v c"
    have c1: "c1 = c\<lparr>searchTerm := v, timer := Some (500, v)\<rparr>"
      by (simp add: c1_def input_categories_first [OF v])
    have a: "timer c1 = Some (500 - 0, searchTerm c1)" by (simp add: c1)
    have b: "(0::nat) < 500" by simp
    have d: "burst_ok 500 0 evs" using Cons.prems(3) by (simp add: Input)
    have e: "distinct_adj (searchTerm c1 # inputs_of evs)"
      using Cons.prems(4) by (simp add: c1 Input)
    have "step_categories ev c = c1" by (simp add: Input c1_def)
    then show ?thesis
      using Cons.IH [OF a b d e] by (simp add: run_categories_Cons Input) (simp add: c1)
  next
    case (Elapse d)
    show ?thesis
    proof (cases "t + d < 500")
      case True
      define c1 where "c1 = elapse_categories d c"
      have c1: "c1 = c\<lparr>timer := Some (500 - (t + d), searchTerm c)\<rparr>"
        using Cons.prems(1) True by (simp add: c1_def elapse_categories_def)
      have a: "timer c1 = Some (500 - (t + d), searchTerm c1)" by (simp add: c1)
      have b: "burst_ok 500 (t + d) evs" using Cons.prems(3) by (simp add: Elapse)
      have e: "distinct_adj (searchTerm c1 # inputs_of evs)"
        using Cons.prems(4) by (simp add: c1 Elapse)
      have "step_categories ev c = c1" by (simp add: Elapse c1_def)
      then show ?thesis
        using Cons.IH [OF a True b e] by (simp add: run_categories_Cons Elapse) (simp add: c1)
    next
      case False
      define c1 where "c1 = elapse_categories d c"
      have fired: "c1 = loadCategories_effect c (timer_fires (searchTerm c) c)"
        using Cons.prems(1,2) False by (simp add: c1_def elapse_categories_def)
      have f: "searchTerm c1 = searchTerm c" "debouncedSearch c1 = searchTerm c"
        "timer c1 = None" "published c1 = published c @ [searchTerm c]"
        "requests c1 = requests c @
           (if searchTerm c = debouncedSearch c then []
            else [GetCategories 1 25 (searchTerm c)])"
        by (auto simp: fired timer_fires_def loadCategories_effect_def
              loadCategories_begin_def send_request_def)
      have none: "inputs_of evs = []"
        using burst_ok_late [of 500 "t + d" evs] False Cons.prems(3) by (simp add: Elapse)
      have "step_categories ev c = c1" by (simp add: Elapse c1_def)
      then show ?thesis
        using run_categories_idle [OF f(3) none]
        by (simp add: run_categories_Cons Elapse none f)
    qed
  next
    case (Settled outcome)
    note f = settle_categories_frame [of outcome c]
    define c1 where "c1 = settle_categories outcome c"
    have a: "timer c1 = Some (500 - t, searchTerm c1)"
      using Cons.prems(1) by (simp add: c1_def f)
    have b: "burst_ok 500 t evs" using Cons.prems(3) by (simp add: Settled)
    have e: "distinct_adj (searchTerm c1 # inputs_of evs)"
      using Cons.prems(4) by (simp add: c1_def f Settled)
    have "step_categories ev c = c1" by (simp add: Settled c1_def)
    then show ?thesis
      using Cons.IH [OF a Cons.prems(2) b e]
      by (simp add: run_categories_Cons Settled) (simp add: c1_def f)
  qed
qed

lemma burst_users_result:
  assumes "burst_ok 400 0 evs"
    and "distinct_adj (searchTerm s # v0 # inputs_of evs)"
    and "\<forall>r \<in> set (responses_of evs).
           currentPage (response_pagination r) = 1
           \<and> itemsPerPage (response_pagination r) = itemsPerPage (pagination s)"
  shows "timer (run_users (Input v0 # evs) s) = None
   \<and> published (run_users (Input v0 # evs) s) = published s @ [last (v0 # inputs_of evs)]
   \<and> debouncedSearch (run_users (Input v0 # evs) s) = last (v0 # inputs_of evs)
   \<and> currentPage (pagination (run_users (Input v0 # evs) s)) = 1
   \<and> requests (run_users (Input v0 # evs) s) =
        requests s
        @ (if currentPage (pagination s) = 1 then []
           else [GetUsers 1 (itemsPerPage (pagination s)) (debouncedSearch s)])
        @ (if last (v0 # inputs_of evs) = debouncedSearch s then []
           else [GetUsers 1 (itemsPerPage (pagination s)) (last (v0 # inputs_of evs))])"
proof -
  define s1 where "s1 = input_users v0 s"
  from assms(2) have v0: "v0 \<noteq> searchTerm s" by auto
  note first = input_users_first [OF v0]
  have f: "searchTerm s1 = v0" "timer s1 = Some (400, v0)" "currentPage (pagination s1) = 1"
    "itemsPerPage (pagination s1) = itemsPerPage (pagination s)"
    "debouncedSearch s1 = debouncedSearch s" "published s1 = published s"
    "requests s1 = requests s
        @ (if currentPage (pagination s) = 1 then []
           else [GetUsers 1 (itemsPerPage (pagination s)) (debouncedSearch s)])"
    by (simp_all add: s1_def first)
  have a: "timer s1 = Some (400 - 0, searchTerm s1)" by (simp add: f)
  have b: "(0::nat) < 400" by simp
  have e: "distinct_adj (searchTerm s1 # inputs_of evs)" using assms(2) by (simp add: f)
  have g: "\<forall>r \<in> set (responses_of evs).
           currentPage (response_pagination r) = 1
           \<and> itemsPerPage (response_pagination r) = itemsPerPage (pagination s1)"
    using assms(3) by (simp add: f)
  show ?thesis
    using run_users_pending [OF a b f(3) assms(1) e g]
    by (simp add: run_users_Cons s1_def [symmetric] f)
qed

lemma burst_categories_result:
  assumes "burst_ok 500 0 evs"
    and "distinct_adj (searchTerm c # v0 # inputs_of evs)"
  shows "timer (run_categories (Input v0 # evs) c) = None
   \<and> published (run_categories (Input v0 # evs) c) = published c @ [last (v0 # inputs_of evs)]
   \<and> debouncedSearch (run_categories (Input v0 # evs) c) = last (v0 # inputs_of evs)
   \<and> requests (run_categories (Input v0 # evs) c) =
        requests c
        @ (if last (v0 # inputs_of evs) = debouncedSearch c then []
           else [GetCategories 1 25 (last (v0 # inputs_of evs))])"
proof -
  define c1 where "c1 = input_categories v0 c"
  from assms(2) have v0: "v0 \<noteq> searchTerm c" by auto
  have f: "searchTerm c1 = v0" "timer c1 = Some (500, v0)"
    "debouncedSearch c1 = debouncedSearch c" "published c1 = published c"
    "requests c1 = requests c"
    by (simp_all add: c1_def input_categories_first [OF v0])
  have a: "timer c1 = Some (500 - 0, searchTerm c1)" by (simp add: f)
  have b: "(0::nat) < 500" by simp
  have e: "distinct_adj (searchTerm c1 # inputs_of evs)" using assms(2) by (simp add: f)
  show ?thesis
    using run_categories_pending [OF a b assms(1) e]
    by (simp add: run_categories_Cons c1_def [symmetric] f)
qed

text \<open>
  C1, as the specification states it: after such a burst exactly one reload has been
  sent, and it carries the last value. On the categories page just mounted, typing
  \<open>a\<close> and deleting it 100 milliseconds later ends the burst with the empty string,
  which is the debounced query already: the timer fires, the setter changes nothing,
  the effect on \<open>[debouncedSearch]\<close> does not run and no reload is sent.
\<close>

theorem burst_zero_reloads_counterexample:
  "\<not> (\<forall>c v0 evs.
         burst_ok 500 0 evs \<longrightarrow>
         distinct_adj (searchTerm c # v0 # inputs_of evs) \<longrightarrow>
         requests (run_categories (Input v0 # evs) c) =
           requests c @ [GetCategories 1 25 (last (v0 # inputs_of evs))])"
proof
  assume claim: "\<forall>c v0 evs.
         burst_ok 500 0 evs \<longrightarrow>
         distinct_adj (searchTerm c # v0 # inputs_of evs) \<longrightarrow>
         requests (run_categories (Input v0 # evs) c) =
           requests c @ [GetCategories 1 25 (last (v0 # inputs_of evs))]"
  define evs :: "category list_response event list"
    where "evs = [Elapse 100, Input [], Elapse 500]"
  have a: "burst_ok 500 0 evs" by (simp add: evs_def)
  have b: "distinct_adj (searchTerm mount_categories_page # ''a'' # inputs_of evs)"
    by (simp add: evs_def mount_categories_page_def initial_categories_page_def
          loadCategories_begin_def send_request_def)
  have "requests (run_categories (Input ''a'' # evs) mount_categories_page) =
        requests mount_categories_page @ [GetCategories 1 25 (last (''a'' # inputs_of evs))]"
    using claim a b by blast
  then show False
    by (simp add: evs_def run_categories_def mount_categories_page_def
          initial_categories_page_def loadCategories_begin_def send_request_def
          input_categories_def handleSearch_categories_def debounce_effect_def
          loadCategories_effect_def elapse_categories_def timer_fires_def)
qed

text \<open>
  C1, amended. An input that changes the raw value replaces whatever timer was
  pending by its own, with the full delay (400 on the users page, 500 on the
  categories page). For every burst on the categories page, whatever requests settle
  meanwhile, and for every burst on the users page during which every response that
  settles reports \<open>currentPage\<close> 1 and the page size the page holds: at the end no
  timer is pending and exactly one timer has fired, publishing the last value of the
  burst as the debounced query. The reload is edge-triggered: the publication sends one
  reload carrying the last value when that value differs from the debounced query
  before the burst, and none when it is equal. On the users page the first input also
  resets \<open>currentPage\<close> to 1 and, when it was not 1 before, sends one reload at once,
  with the debounced query of before the burst.
\<close>

theorem debounced_burst:
  assumes "burst_ok 400 0 evs"
    and "distinct_adj (searchTerm s # v0 # inputs_of evs)"
    and "\<forall>r \<in> set (responses_of evs).
           currentPage (response_pagination r) = 1
           \<and> itemsPerPage (response_pagination r) = itemsPerPage (pagination s)"
    and "burst_ok 500 0 evs'"
    and "distinct_adj (searchTerm c # v0' # inputs_of evs')"
  shows "(v \<noteq> searchTerm s1 \<longrightarrow> timer (input_users v s1) = Some (400, v))
   \<and> timer (run_users (Input v0 # evs) s) = None
   \<and> published (run_users (Input v0 # evs) s) = published s @ [last (v0 # inputs_of evs)]
   \<and> debouncedSearch (run_users (Input v0 # evs) s) = last (v0 # inputs_of evs)
   \<and> currentPage (pagination (run_users (Input v0 # evs) s)) = 1
   \<and> requests (run_users (Input v0 # evs) s) =
        requests s
        @ (if currentPage (pagination s) = 1 then []
           else [GetUsers 1 (itemsPerPage (pagination s)) (debouncedSearch s)])
        @ (if last (v0 # inputs_of evs) = debouncedSearch s then []
           else [GetUsers 1 (itemsPerPage (pagination s)) (last (v0 # inputs_of evs))])
   \<and> (v \<noteq> searchTerm c1 \<longrightarrow> timer (input_categories v c1) = Some (500, v))
   \<and> timer (run_categories (Input v0' # evs') c) = None
   \<and> published (run_categories (Input v0' # evs') c) =
        published c @ [last (v0' # inputs_of evs')]
   \<and> debouncedSearch (run_categories (Input v0' # evs') c) = last (v0' # inputs_of evs')
   \<and> requests (run_categories (Input v0' # evs') c) =
        requests c
        @ (if last (v0' # inputs_of evs') = debouncedSearch c then []
           else [GetCategories 1 25 (last (v0' # inputs_of evs'))])"
proof -
  have u: "v \<noteq> searchTerm s1 \<longrightarrow> timer (input_users v s1) = Some (400, v)"
    by (simp add: input_users_first)
  have k: "v \<noteq> searchTerm c1 \<longrightarrow> timer (input_categories v c1) = Some (500, v)"
    by (simp add: input_categories_first)
  from u k burst_users_result [OF assms(1-3)] burst_categories_result [OF assms(4,5)]
  show ?thesis by simp
qed

lemma page_three_eq:
  "page_three =
     \<lparr>loading = False, searchTerm = [], debouncedSearch = [], showEditModal = False,
      showCreateModal = False, timer = None, published = [[]],
      requests = [GetUsers 1 25 [], GetUsers 3 25 []], console = [],
      users = [], selectedUser = None,
      pagination = \<lparr>currentPage = 3, totalPages = 4, totalItems = 80, itemsPerPage = 25\<rparr>,
      alerts = []\<rparr>"
  by (simp add: page_three_def settle_users_def page_change_users_def handlePageChange_def
        elapse_users_def timer_fires_def mount_users_page_def initial_users_page_def
        loadUsers_begin_def loadUsers_end_def loadUsers_effect_def loadUsers_deps_def
        send_request_def)

theorem debounced_burst_witness:
  "requests (run_users
       [Input ''a'', Elapse 100,
        Settled (Inr \<lparr>data = [], response_pagination =
          \<lparr>currentPage = 1, totalPages = 4, totalItems = 80, itemsPerPage = 25\<rparr>\<rparr>),
        Input ''ab'', Elapse 399, Input ''abc'', Elapse 400] page_three) =
     [GetUsers 1 25 [], GetUsers 3 25 [], GetUsers 1 25 [], GetUsers 1 25 ''abc'']
   \<and> published (run_users
       [Input ''a'', Elapse 100,
        Settled (Inr \<lparr>data = [], response_pagination =
          \<lparr>currentPage = 1, totalPages = 4, totalItems = 80, itemsPerPage = 25\<rparr>\<rparr>),
        Input ''ab'', Elapse 399, Input ''abc'', Elapse 400] page_three) = [[], ''abc'']
   \<and> published (run_categories
       [Input ''a'', Elapse 100, Settled (Inr \<lparr>data = []\<rparr>), Input [], Elapse 500]
       mount_categories_page) = [[]]
   \<and> requests (run_categories
       [Input ''a'', Elapse 100, Settled (Inr \<lparr>data = []\<rparr>), Input [], Elapse 500]
       mount_categories_page) = [GetCategories 1 25 []]"
proof -
  define evs :: "admin_user paged_response event list" where
    "evs = [Elapse 100,
        Settled (Inr \<lparr>data = [], response_pagination =
          \<lparr>currentPage = 1, totalPages = 4, totalItems = 80, itemsPerPage = 25\<rparr>\<rparr>),
        Input ''ab'', Elapse 399, Input ''abc'', Elapse 400]"
  define evs' :: "category list_response event list" where
    "evs' = [Elapse 100, Settled (Inr \<lparr>data = []\<rparr>), Input [], Elapse 500]"
  have a: "burst_ok 400 0 evs" by (simp add: evs_def)
  have b: "distinct_adj (searchTerm page_three # ''a'' # inputs_of evs)"
    by (simp add: evs_def page_three_eq)
  have c: "\<forall>r \<in> set (responses_of evs).
           currentPage (response_pagination r) = 1
           \<and> itemsPerPage (response_pagination r) = itemsPerPage (pagination page_three)"
    by (simp add: evs_def page_three_eq)
  have d: "burst_ok 500 0 evs'" by (simp add: evs'_def)
  have e: "distinct_adj (searchTerm mount_categories_page # ''a'' # inputs_of evs')"
    by (simp add: evs'_def mount_categories_page_def initial_categories_page_def
          loadCategories_begin_def send_request_def)
  show ?thesis
    using debounced_burst [OF a b c d e]
    by (simp add: evs_def evs'_def page_three_eq mount_categories_page_def
          initial_categories_page_def loadCategories_begin_def send_request_def)
qed

text \<open>Without the condition on the responses: on the page that shows page 3, with the
  request for page 3 still under way, the answer for page 3 settles 100 milliseconds
  after the input. It puts \<open>currentPage\<close> back to 3, the reload effect runs again,
  and the burst ends with three reloads, the last two for page 3.\<close>

lemma stale_response_example:
  "requests (run_users
       [Input ''a'', Elapse 100,
        Settled (Inr \<lparr>data = [], response_pagination =
          \<lparr>currentPage = 3, totalPages = 4, totalItems = 80, itemsPerPage = 25\<rparr>\<rparr>),
        Elapse 400]
       (page_change_users 3
          (settle_users
             (Inr \<lparr>data = [], response_pagination =
                    \<lparr>currentPage = 1, totalPages = 4, totalItems = 80, itemsPerPage = 25\<rparr>\<rparr>)
             (elapse_users 400 mount_users_page)))) =
     [GetUsers 1 25 [], GetUsers 3 25 [], GetUsers 1 25 [], GetUsers 3 25 [],
      GetUsers 3 25 ''a'']"
  by (simp add: run_users_def settle_users_def page_change_users_def handlePageChange_def
        input_users_def handleSearch_def debounce_effect_def
        elapse_users_def timer_fires_def mount_users_page_def initial_users_page_def
        loadUsers_begin_def loadUsers_end_def loadUsers_effect_def loadUsers_deps_def
        send_request_def)

end
